theory Spec2Isabelle
  imports Main "HOL-Library.Sublist"
begin

section \<open>Action orchestration helpers (joinExit/actions/helpers.ts)\<close>

subsection \<open>Data model\<close>

text \<open>
  The enums \<open>ActionType\<close> and \<open>ActionStep\<close> are imported by helpers.ts from
  \<open>./types\<close>. A TypeScript \<open>number\<close> that holds a token index or a reference key is
  an \<open>int\<close>; a \<open>BigNumber\<close> is an \<open>int\<close> as well (it is unbounded).
\<close>

datatype ActionType = BatchSwap | Join | Exit

datatype ActionStep = Direct | TokenIn | TokenOut | Middle

text \<open>
  \<open>OutputReference\<close> is \<open>{ index: number, key: BigNumber }\<close>. The empty object
  \<open>{} as OutputReference\<close> that \<open>getActionOutputRef\<close> starts from is \<open>None\<close>.
\<close>

record OutputReference =
  index :: int
  key :: int

subsection \<open>Decimal rendering of a BigNumber\<close>

text \<open>
  \<open>BigNumber.toString()\<close> prints the value in base ten, with a leading minus sign
  for a negative value.
\<close>

definition digitChar :: "nat \<Rightarrow> char" where
  "digitChar d = ''0123456789'' ! d"

function natToString :: "nat \<Rightarrow> string" where
  "natToString n =
     (if n < 10 then [digitChar n]
      else natToString (n div 10) @ [digitChar (n mod 10)])"
  by pat_completeness auto
termination
  by (relation "measure (\<lambda>n. n)") auto

declare natToString.simps [simp del]

definition toString :: "int \<Rightarrow> string" where
  "toString i =
     (if i < 0 then CHR ''-'' # natToString (nat (- i)) else natToString (nat i))"

subsection \<open>Reference allocator\<close>

text \<open>
  \<open>Relayer.toChainedReference\<close> lives in the relayer module, which is not part of
  the sources at hand; it is the parameter \<open>toChainedReference\<close> of the two
  functions that call it (key to \<open>BigNumber\<close>).
\<close>

definition getActionAmount ::
  "(int \<Rightarrow> int) \<Rightarrow> string \<Rightarrow> ActionType \<Rightarrow> ActionStep \<Rightarrow> int \<Rightarrow> string" where
  "getActionAmount toChainedReference amount actionType actionStep opRefKey =
     (let amountIn = amount in
      if actionStep = TokenOut
         \<or> (actionStep = Middle \<and> actionType = Join)
         \<or> (actionStep = Middle \<and> actionType = Exit)
      then toString (toChainedReference (opRefKey - 1))
      else amountIn)"

definition getOutputRef :: "(int \<Rightarrow> int) \<Rightarrow> int \<Rightarrow> int \<Rightarrow> OutputReference" where
  "getOutputRef toChainedReference k i =
     (let keyRef = toChainedReference k in \<lparr>index = i, key = keyRef\<rparr>)"

definition getActionOutputRef ::
  "(int \<Rightarrow> int) \<Rightarrow> ActionStep \<Rightarrow> int \<Rightarrow> int \<Rightarrow> OutputReference option \<times> int" where
  "getActionOutputRef toChainedReference actionStep tokenOutIndex opRefKey =
     (if actionStep = TokenIn \<or> actionStep = Middle
      then (Some (getOutputRef toChainedReference opRefKey tokenOutIndex), opRefKey + 1)
      else (None, opRefKey))"

text \<open>
  Threading the counter: the caller passes the counter returned by one call of
  \<open>getActionOutputRef\<close> to the next one, for a sequence of (step, token-out index)
  pairs.
\<close>

fun threadOpRefKey :: "(int \<Rightarrow> int) \<Rightarrow> (ActionStep \<times> int) list \<Rightarrow> int \<Rightarrow> int" where
  "threadOpRefKey r [] k = k"
| "threadOpRefKey r ((s, i) # rest) k =
     threadOpRefKey r rest (snd (getActionOutputRef r s i k))"

definition allocates :: "ActionStep \<times> int \<Rightarrow> bool" where
  "allocates p = (fst p = TokenIn \<or> fst p = Middle)"

text \<open>
  A stand-in for \<open>Relayer.toChainedReference\<close>, used only to evaluate concrete
  calls; every general statement below holds for any function in its place.
\<close>

definition sampleChainedReference :: "int \<Rightarrow> int" where
  "sampleChainedReference k = 1000 + k"

subsection \<open>Action classifier\<close>

definition getActionStep :: "int \<Rightarrow> int \<Rightarrow> int \<Rightarrow> int \<Rightarrow> ActionStep" where
  "getActionStep tokenInIndex tokenOutIndex tokenInIndexAction tokenOutIndexAction =
     (if tokenInIndexAction = tokenInIndex \<and> tokenOutIndexAction = tokenOutIndex
      then Direct
      else if tokenInIndexAction = tokenInIndex then TokenIn
      else if tokenOutIndexAction = tokenOutIndex then TokenOut
      else Middle)"

subsection \<open>Actions\<close>

text \<open>
  Modelled from the spec: the classes \<open>Join\<close>, \<open>Exit\<close> and \<open>Swap\<close> and their union
  type \<open>Actions\<close> are imported by helpers.ts from \<open>./types\<close> and \<open>./swap\<close>, which
  are not among the sources. The spec gives an action as a tagged variant
  \<open>{ type, poolId?, swaps?, hasTokenIn, hasTokenOut, ... }\<close> and the \<open>Swap\<close> aggregate
  as an ordered sequence of swap steps that share a funding-source
  classification (external balance or internal balance). The swap steps
  themselves are opaque here (type \<open>'s\<close>).
\<close>

datatype FundingSource = ExternalBalance | InternalBalance

record 's Actions =
  type :: ActionType
  poolId :: string
  hasTokenIn :: bool
  hasTokenOut :: bool
  swaps :: "'s list"
  fundingSource :: FundingSource

text \<open>
  Modelled from the spec: \<open>Swap.copy\<close>, \<open>Swap.canAddSwap\<close> and \<open>Swap.addSwap\<close>.
  An existing action is never mutated in place, so \<open>copy\<close> yields an equal value;
  the aggregate accepts a swap of the same funding-source classification; and
  two merged swaps form one aggregate of combined length.
\<close>

definition copy :: "'s Actions \<Rightarrow> 's Actions" where
  "copy a = a"

definition canAddSwap :: "'s Actions \<Rightarrow> 's Actions \<Rightarrow> bool" where
  "canAddSwap batchedSwaps newSwap = (fundingSource newSwap = fundingSource batchedSwaps)"

definition addSwap :: "'s Actions \<Rightarrow> 's Actions \<Rightarrow> 's Actions" where
  "addSwap batchedSwaps newSwap = batchedSwaps\<lparr>swaps := swaps batchedSwaps @ swaps newSwap\<rparr>"

subsection \<open>Action orderer\<close>

text \<open>
  The body of the loop of \<open>categorizeActions\<close>, on the three arrays
  \<open>(enterActions, exitActions, middleActions)\<close>.
\<close>

definition categorizeStep ::
  "'s Actions list \<times> 's Actions list \<times> 's Actions list \<Rightarrow> 's Actions
   \<Rightarrow> 's Actions list \<times> 's Actions list \<times> 's Actions list" where
  "categorizeStep st a =
     (case st of (enterActions, exitActions, middleActions) \<Rightarrow>
        if type a = Exit \<or> type a = Join then
          (if hasTokenIn a then (enterActions @ [a], exitActions, middleActions)
           else if hasTokenOut a then (enterActions, exitActions @ [a], middleActions)
           else (enterActions, exitActions, middleActions @ [a]))
        else (enterActions, exitActions, middleActions @ [a]))"

definition categorizeActions :: "'s Actions list \<Rightarrow> 's Actions list" where
  "categorizeActions actions =
     (case foldl categorizeStep ([], [], []) actions of
        (enterActions, exitActions, middleActions) \<Rightarrow>
          enterActions @ middleActions @ exitActions)"

subsection \<open>Swap batcher\<close>

text \<open>
  The body of the loop of \<open>batchSwapActions\<close>, on the pair
  \<open>(orderedActions, batchedSwaps)\<close>; \<open>batchedSwaps = undefined\<close> is \<open>None\<close>.
\<close>

definition batchStep ::
  "'s Actions list \<times> 's Actions option \<Rightarrow> 's Actions
   \<Rightarrow> 's Actions list \<times> 's Actions option" where
  "batchStep st a =
     (case st of (orderedActions, batchedSwaps) \<Rightarrow>
        if type a = BatchSwap then
          (case batchedSwaps of
             None \<Rightarrow> (orderedActions, Some (copy a))
           | Some b \<Rightarrow>
               if canAddSwap b a then (orderedActions, Some (addSwap b a))
               else (orderedActions @ [b], Some (copy a)))
        else
          (case batchedSwaps of
             Some b \<Rightarrow> ((orderedActions @ [b]) @ [a], None)
           | None \<Rightarrow> (orderedActions @ [a], None)))"

definition batchSwapActions :: "'s Actions list \<Rightarrow> 's Actions list" where
  "batchSwapActions allActions =
     (case foldl batchStep ([], None) allActions of
        (orderedActions, batchedSwaps) \<Rightarrow>
          (case batchedSwaps of
             Some b \<Rightarrow> if length (swaps b) = 1 then orderedActions @ [b] else orderedActions
           | None \<Rightarrow> orderedActions))"

definition orderActions :: "'s Actions list \<Rightarrow> 's Actions list" where
  "orderActions actions =
     (let categorizedActions = categorizeActions actions;
          orderedActions = batchSwapActions categorizedActions
      in orderedActions)"

subsection \<open>Vocabulary of the properties\<close>

text \<open>
  The three partitions of the orderer: an enter action is a Join or Exit with
  \<open>hasTokenIn\<close>; an exit action is a Join or Exit with \<open>hasTokenOut\<close> but not
  \<open>hasTokenIn\<close>; a middle action is a BatchSwap, or a Join or Exit with neither
  boundary token.
\<close>

definition isJoinExit :: "'s Actions \<Rightarrow> bool" where
  "isJoinExit a = (type a = Join \<or> type a = Exit)"

definition isEnter :: "'s Actions \<Rightarrow> bool" where
  "isEnter a = (isJoinExit a \<and> hasTokenIn a)"

definition isExit :: "'s Actions \<Rightarrow> bool" where
  "isExit a = (isJoinExit a \<and> hasTokenOut a \<and> \<not> hasTokenIn a)"

definition isMiddle :: "'s Actions \<Rightarrow> bool" where
  "isMiddle a = (type a = BatchSwap \<or> (isJoinExit a \<and> \<not> hasTokenIn a \<and> \<not> hasTokenOut a))"

text \<open>
  What the scan of the batcher has produced once the aggregate in progress is
  appended to it, whatever its length.
\<close>

definition flush :: "'s Actions option \<Rightarrow> 's Actions list" where
  "flush batchedSwaps = (case batchedSwaps of None \<Rightarrow> [] | Some b \<Rightarrow> [b])"

definition batchFlushed :: "'s Actions list \<Rightarrow> 's Actions list" where
  "batchFlushed allActions =
     (case foldl batchStep ([], None) allActions of
        (orderedActions, batchedSwaps) \<Rightarrow> orderedActions @ flush batchedSwaps)"

text \<open>
  The middle segment of the output of \<open>orderActions\<close>: the batcher run on the
  middle actions, its last aggregate appended whatever its length when an exit
  action follows. Each partition has a rank, by which the output is sorted.
\<close>

definition middleBatched :: "'s Actions list \<Rightarrow> 's Actions list" where
  "middleBatched as =
     (if filter isExit as = [] then batchSwapActions (filter isMiddle as)
      else batchFlushed (filter isMiddle as))"

definition partitionRank :: "'s Actions \<Rightarrow> nat" where
  "partitionRank a = (if isEnter a then 0 else if isMiddle a then 1 else 2)"

text \<open>The swap steps held by the BatchSwap actions of a list, in order.\<close>

definition swapSteps :: "'s Actions list \<Rightarrow> 's list" where
  "swapSteps as = concat (map swaps (filter (\<lambda>a. type a = BatchSwap) as))"

text \<open>
  The items of a list of actions, in order: each Join or Exit itself, and each
  swap step of each BatchSwap. Merging adjacent BatchSwap actions leaves the
  items as they are.
\<close>

definition actionItems :: "'s Actions list \<Rightarrow> ('s Actions + 's) list" where
  "actionItems as =
     concat (map (\<lambda>a. if type a = BatchSwap then map Inr (swaps a) else [Inl a]) as)"

text \<open>Sample actions for evaluating concrete calls; a swap step is a string here.\<close>

definition sampleJoin :: "string Actions" where
  "sampleJoin = \<lparr>type = Join, poolId = ''pool1'', hasTokenIn = True, hasTokenOut = False,
     swaps = [], fundingSource = ExternalBalance\<rparr>"

definition sampleExit :: "string Actions" where
  "sampleExit = \<lparr>type = Exit, poolId = ''pool2'', hasTokenIn = False, hasTokenOut = True,
     swaps = [], fundingSource = InternalBalance\<rparr>"

definition sampleSwap :: "string \<Rightarrow> FundingSource \<Rightarrow> string Actions" where
  "sampleSwap step src = \<lparr>type = BatchSwap, poolId = [], hasTokenIn = False,
     hasTokenOut = False, swaps = [step], fundingSource = src\<rparr>"

section \<open>Simulation dispatcher (class Simulation)\<close>

subsection \<open>Collaborators and results\<close>

text \<open>
  \<open>enum SimulationType { Tenderly, VaultModel, Static }\<close> is a numeric enum: at run
  time \<open>simulationType\<close> is a number, and the \<open>switch\<close> has a \<open>default\<close> branch for
  every other value.
\<close>

definition Tenderly :: int where "Tenderly = 0"
definition VaultModel :: int where "VaultModel = 1"
definition Static :: int where "Static = 2"

text \<open>
  Modelled from the spec: the request type \<open>Requests\<close> of the vault-model module,
  which is not among the sources. The replica accepts an ordered sequence of
  join, exit and batch-swap requests; a join or exit request carries its
  \<open>poolId\<close>, and each swap of a batch-swap request is represented by its
  \<open>poolId\<close>, the only field read here.
\<close>

datatype Requests =
    JoinRequest string
  | ExitRequest string
  | BatchSwapRequest "string list"

text \<open>
  A failure of the call: \<open>Error msg\<close> is \<open>throw new Error(msg)\<close> in the dispatcher
  itself; \<open>TypeError\<close> is what the runtime throws when a property is read from
  \<open>undefined\<close>; \<open>Rejected e\<close> is a failure \<open>e\<close> of a collaborator, passed on
  unchanged.
\<close>

datatype 'e Failure = Error string | TypeError | Rejected 'e

text \<open>The calls that leave the process, in the order they are awaited.\<close>

datatype IOEvent =
    SimulateMulticall string string string "string list"
  | VaultMulticall "Requests list" bool
  | SignerCall string string nat

text \<open>
  The instance: \<open>tenderlyHelper.simulateMulticall\<close>, and \<open>vaultModel\<close>, which is
  \<open>undefined\<close> (\<open>None\<close>) when no pool data service was configured. The replica is
  stateful: \<open>multicall\<close> takes its state, the requests and the flag \<open>i === 0\<close>, and
  returns the deltas (address to signed balance delta) and its next state.
\<close>

record ('e, 'vm) VaultModelReplica =
  replicaState :: 'vm
  multicall :: "'vm \<Rightarrow> Requests list \<Rightarrow> bool
                \<Rightarrow> ('e + (string \<rightharpoonup> int)) \<times> 'vm"

record ('e, 'vm) Simulation =
  simulateMulticall :: "string \<Rightarrow> string \<Rightarrow> string \<Rightarrow> string list \<Rightarrow> 'e + string"
  vaultModel :: "('e, 'vm) VaultModelReplica option"

text \<open>
  The imported functions the dispatcher calls: \<open>getPoolAddress\<close> (pool-utils) and
  \<open>defaultAbiCoder.decode\<close> at the two types it is used with. They are not among
  the sources and are parameters; each may throw. The \<open>uint256\<close> decoder receives
  \<open>multicallResult[outputIndex]\<close>, which is \<open>undefined\<close> (\<open>None\<close>) when the index is
  out of range.
\<close>

record 'e Imports =
  getPoolAddress :: "string \<Rightarrow> 'e + string"
  decodeBytesArray :: "string \<Rightarrow> 'e + string list"
  decodeUint256 :: "string option \<Rightarrow> 'e + int"

record SimulationResult =
  amountsOut :: "string list"
  totalAmountOut :: string

subsection \<open>decodeResult\<close>

definition arrayAt :: "'a list \<Rightarrow> int \<Rightarrow> 'a option" where
  "arrayAt xs i = (if 0 \<le> i \<and> i < int (length xs) then Some (xs ! nat i) else None)"

text \<open>
  The \<open>forEach\<close> over \<open>outputIndexes\<close>, on \<open>(amountsOut, totalAmountOut)\<close>. The decoded
  \<open>value\<close> is rendered with \<open>toString\<close> and added to the total through that string;
  parsing the decimal string of a \<open>BigNumber\<close> gives the number back.
\<close>

fun decodeEach ::
  "'e Imports \<Rightarrow> string list \<Rightarrow> int list \<Rightarrow> string list \<times> int
   \<Rightarrow> 'e Failure + string list \<times> int" where
  "decodeEach lib multicallResult [] acc = Inr acc"
| "decodeEach lib multicallResult (outputIndex # rest) acc =
     (case decodeUint256 lib (arrayAt multicallResult outputIndex) of
        Inl e \<Rightarrow> Inl (Rejected e)
      | Inr v \<Rightarrow>
          decodeEach lib multicallResult rest (fst acc @ [toString v], snd acc + v))"

definition decodeResult ::
  "'e Imports \<Rightarrow> string \<Rightarrow> int list \<Rightarrow> 'e Failure + SimulationResult" where
  "decodeResult lib result outputIndexes =
     (case decodeBytesArray lib result of
        Inl e \<Rightarrow> Inl (Rejected e)
      | Inr multicallResult \<Rightarrow>
          (case decodeEach lib multicallResult outputIndexes ([], 0) of
             Inl f \<Rightarrow> Inl f
           | Inr acc \<Rightarrow>
               Inr \<lparr>amountsOut = fst acc, totalAmountOut = toString (snd acc)\<rparr>))"

subsection \<open>simulateGeneralisedJoin\<close>

text \<open>
  The pool id of the last request of a path. \<open>requests[requests.length - 1]\<close> is
  \<open>undefined\<close> for an empty path, and so is \<open>swaps[0]\<close> for a batch swap without
  swaps; reading a property from either throws.
\<close>

definition lastRequestPoolId :: "Requests list \<Rightarrow> 'e Failure + string" where
  "lastRequestPoolId requests =
     (if requests = [] then Inl TypeError
      else case last requests of
             JoinRequest p \<Rightarrow> Inr p
           | ExitRequest p \<Rightarrow> Inr p
           | BatchSwapRequest sw \<Rightarrow> (case sw of [] \<Rightarrow> Inl TypeError | s # _ \<Rightarrow> Inr s))"

text \<open>
  \<open>!bptOutDelta\<close>: a \<open>BigNumber\<close> is an object, and every object is truthy, zero
  included.
\<close>

definition truthy :: "int \<Rightarrow> bool" where
  "truthy bigNumber = True"

text \<open>
  The loop over \<open>multiRequests.entries()\<close> of the VaultModel branch: \<open>i\<close> is the index
  of the path, \<open>st\<close> the state of the replica, \<open>io\<close> the calls made so far.
\<close>

fun vaultModelLoop ::
  "'e Imports \<Rightarrow> ('vm \<Rightarrow> Requests list \<Rightarrow> bool \<Rightarrow> ('e + (string \<rightharpoonup> int)) \<times> 'vm)
   \<Rightarrow> 'vm \<Rightarrow> nat \<Rightarrow> Requests list list \<Rightarrow> IOEvent list \<Rightarrow> string list \<times> int
   \<Rightarrow> IOEvent list \<times> ('e Failure + SimulationResult)" where
  "vaultModelLoop lib mc st i [] io acc =
     (io, Inr \<lparr>amountsOut = fst acc, totalAmountOut = toString (snd acc)\<rparr>)"
| "vaultModelLoop lib mc st i (requests # rest) io acc =
     (case lastRequestPoolId requests of
        Inl f \<Rightarrow> (io, Inl f)
      | Inr poolId' \<Rightarrow>
          (case getPoolAddress lib poolId' of
             Inl e \<Rightarrow> (io, Inl (Rejected e))
           | Inr rootPoolAddress \<Rightarrow>
               (case mc st requests (i = 0) of
                  (Inl e, st') \<Rightarrow> (io @ [VaultMulticall requests (i = 0)], Inl (Rejected e))
                | (Inr deltas, st') \<Rightarrow>
                    (case deltas rootPoolAddress of
                       None \<Rightarrow> (io @ [VaultMulticall requests (i = 0)], Inl TypeError)
                     | Some d \<Rightarrow>
                         (let bptOutDelta = d * (- 1) in
                          if \<not> truthy bptOutDelta
                          then (io @ [VaultMulticall requests (i = 0)],
                                Inl (Error ''No delta found for BPT out.''))
                          else vaultModelLoop lib mc st' (i + 1) rest
                                 (io @ [VaultMulticall requests (i = 0)])
                                 (fst acc @ [toString bptOutDelta],
                                  snd acc + bptOutDelta))))))"

definition simulateGeneralisedJoin ::
  "('e, 'vm) Simulation \<Rightarrow> 'e Imports \<Rightarrow> string \<Rightarrow> Requests list list \<Rightarrow> string
   \<Rightarrow> int list \<Rightarrow> string \<Rightarrow> string list \<Rightarrow> (string \<Rightarrow> string \<Rightarrow> nat \<Rightarrow> 'e + string)
   \<Rightarrow> int \<Rightarrow> IOEvent list \<times> ('e Failure + SimulationResult)" where
  "simulateGeneralisedJoin this lib to multiRequests encodedCall outputIndexes userAddress
     tokensIn signerCall simulationType =
     (if simulationType = Tenderly then
        (case simulateMulticall this to encodedCall userAddress tokensIn of
           Inl e \<Rightarrow> ([SimulateMulticall to encodedCall userAddress tokensIn], Inl (Rejected e))
         | Inr simulationResult \<Rightarrow>
             ([SimulateMulticall to encodedCall userAddress tokensIn],
              decodeResult lib simulationResult outputIndexes))
      else if simulationType = VaultModel then
        (case vaultModel this of
           None \<Rightarrow> ([], Inl (Error ''Missing Vault Model Config.''))
         | Some vm \<Rightarrow>
             vaultModelLoop lib (multicall vm) (replicaState vm) 0 multiRequests [] ([], 0))
      else if simulationType = Static then
        (let gasLimit = 8000000 in
         case signerCall to encodedCall gasLimit of
           Inl e \<Rightarrow> ([SignerCall to encodedCall gasLimit], Inl (Rejected e))
         | Inr staticResult \<Rightarrow>
             ([SignerCall to encodedCall gasLimit],
              decodeResult lib staticResult outputIndexes))
      else ([], Inl (Error ''Simulation type not supported'')))"

subsection \<open>Vocabulary of the properties\<close>

text \<open>
  The configuration errors of the dispatcher are its two own errors about the
  selected strategy.
\<close>

definition isConfigurationError :: "'e Failure + SimulationResult \<Rightarrow> bool" where
  "isConfigurationError r =
     (r = Inl (Error ''Missing Vault Model Config.'')
      \<or> r = Inl (Error ''Simulation type not supported''))"

definition isFailure :: "'e Failure + SimulationResult \<Rightarrow> bool" where
  "isFailure r = (case r of Inl f \<Rightarrow> True | Inr v \<Rightarrow> False)"

text \<open>
  What the spec says of the VaultModel strategy, path by path: the signed balance
  delta that the replica reports at the address of the pool of the path's last
  request, with the replica's state passed from one path to the next and the
  first path flagged; \<open>None\<close> when some path has no resolvable delta.
\<close>

definition rootPoolDelta ::
  "'e Imports \<Rightarrow> ('vm \<Rightarrow> Requests list \<Rightarrow> bool \<Rightarrow> ('e + (string \<rightharpoonup> int)) \<times> 'vm)
   \<Rightarrow> 'vm \<Rightarrow> bool \<Rightarrow> Requests list \<Rightarrow> (int \<times> 'vm) option" where
  "rootPoolDelta lib mc st isFirst requests =
     (case (lastRequestPoolId requests :: 'e Failure + string) of
        Inl f \<Rightarrow> None
      | Inr poolId' \<Rightarrow>
          (case getPoolAddress lib poolId' of
             Inl e \<Rightarrow> None
           | Inr a \<Rightarrow>
               (case mc st requests isFirst of
                  (Inl e, st') \<Rightarrow> None
                | (Inr deltas, st') \<Rightarrow> map_option (\<lambda>d. (d, st')) (deltas a))))"

fun pathDeltas ::
  "'e Imports \<Rightarrow> ('vm \<Rightarrow> Requests list \<Rightarrow> bool \<Rightarrow> ('e + (string \<rightharpoonup> int)) \<times> 'vm)
   \<Rightarrow> 'vm \<Rightarrow> nat \<Rightarrow> Requests list list \<Rightarrow> int list option" where
  "pathDeltas lib mc st i [] = Some []"
| "pathDeltas lib mc st i (requests # rest) =
     (case rootPoolDelta lib mc st (i = 0) requests of
        None \<Rightarrow> None
      | Some (d, st') \<Rightarrow> map_option (\<lambda>ds. d # ds) (pathDeltas lib mc st' (i + 1) rest))"

text \<open>Sample collaborators for evaluating concrete calls.\<close>

definition sampleImports :: "string Imports" where
  "sampleImports =
     \<lparr>getPoolAddress = (\<lambda>p. Inr (take 4 p)),
      decodeBytesArray = (\<lambda>r. if r = ''raw'' then Inr [''b0'', ''b1''] else Inl ''bad bytes''),
      decodeUint256 = (\<lambda>b. if b = Some ''b0'' then Inr 5
                            else if b = Some ''b1'' then Inr 7 else Inl ''bad uint'')\<rparr>"

definition sampleReplica :: "(string, nat) VaultModelReplica" where
  "sampleReplica =
     \<lparr>replicaState = 0,
      multicall = (\<lambda>st reqs isFirst. (Inr [''pool'' \<mapsto> - 10 - int st], st + 1))\<rparr>"

definition sampleSimulation :: "(string, nat) VaultModelReplica option \<Rightarrow> (string, nat) Simulation" where
  "sampleSimulation vm = \<lparr>simulateMulticall = (\<lambda>t d u ts. Inr ''raw''), vaultModel = vm\<rparr>"

definition sampleSigner :: "string \<Rightarrow> string \<Rightarrow> nat \<Rightarrow> string + string" where
  "sampleSigner t d g = Inr ''raw''"

section \<open>Properties\<close>

subsection \<open>Action classifier\<close>

text \<open>
  C5. \<open>getActionStep\<close> is a total function of the four indices (no error path),
  and its value is fixed by the precedence rules: Direct exactly when both the
  local input and the local output index match the global ones; TokenIn exactly
  when the input index matches and the output index does not; TokenOut exactly
  when the output index matches and the input index does not; Middle exactly
  when neither matches. The four conditions are mutually exclusive and
  exhaustive, so exactly one step is returned.
\<close>

theorem getActionStep_rules:
  "(getActionStep ti to tia toa = Direct) = (tia = ti \<and> toa = to)
   \<and> (getActionStep ti to tia toa = TokenIn) = (tia = ti \<and> toa \<noteq> to)
   \<and> (getActionStep ti to tia toa = TokenOut) = (tia \<noteq> ti \<and> toa = to)
   \<and> (getActionStep ti to tia toa = Middle) = (tia \<noteq> ti \<and> toa \<noteq> to)"
  by (simp add: getActionStep_def)

theorem getActionStep_rules_witness:
  "getActionStep 0 3 0 3 = Direct \<and> getActionStep 0 3 0 2 = TokenIn
   \<and> getActionStep 0 3 1 3 = TokenOut \<and> getActionStep 0 3 1 2 = Middle"
  using getActionStep_rules [of 0 3 0 3] getActionStep_rules [of 0 3 0 2]
    getActionStep_rules [of 0 3 1 3] getActionStep_rules [of 0 3 1 2]
  by simp

subsection \<open>Reference allocator\<close>

lemma threadOpRefKey_count:
  "threadOpRefKey r steps k = k + int (length (filter allocates steps))"
proof (induction steps arbitrary: k)
  case Nil
  show ?case by simp
next
  case (Cons p steps)
  obtain s i where p: "p = (s, i)" by (cases p)
  show ?case
    by (simp add: p Cons.IH getActionOutputRef_def allocates_def)
qed

text \<open>
  C3 (as stated). The claim says the literal amount comes back unchanged only for
  a Direct or TokenIn step. A Middle step of a BatchSwap action is neither, and
  the literal amount comes back unchanged.
\<close>

theorem getActionAmount_middle_swap_counterexample:
  "getActionAmount sampleChainedReference ''7'' BatchSwap Middle 5 = ''7''
   \<and> Middle \<noteq> Direct \<and> Middle \<noteq> TokenIn
   \<and> ''7'' \<noteq> toString (sampleChainedReference (5 - 1))"
  by (simp add: getActionAmount_def toString_def sampleChainedReference_def
      natToString.simps [of 1004] natToString.simps [of 100] natToString.simps [of 10]
      natToString.simps [of 1])

text \<open>
  C3 (amended). \<open>getActionAmount\<close> returns the literal amount unchanged when the
  step is Direct or TokenIn, and also when the step is Middle and the action is
  a BatchSwap; for a TokenOut step (of any action type) and for a Middle step of
  a Join or an Exit it returns the decimal string of the chained reference of
  key \<open>opRefKey - 1\<close>.
\<close>

theorem getActionAmount_cases:
  "(s = Direct \<or> s = TokenIn \<or> (s = Middle \<and> t = BatchSwap)
      \<longrightarrow> getActionAmount r amount t s k = amount)
   \<and> (s = TokenOut \<or> (s = Middle \<and> (t = Join \<or> t = Exit))
      \<longrightarrow> getActionAmount r amount t s k = toString (r (k - 1)))"
  by (cases s; cases t) (simp_all add: getActionAmount_def)

theorem getActionAmount_cases_witness:
  "getActionAmount sampleChainedReference ''7'' Join TokenIn 5 = ''7''
   \<and> getActionAmount sampleChainedReference ''7'' BatchSwap Middle 5 = ''7''
   \<and> getActionAmount sampleChainedReference ''7'' BatchSwap TokenOut 5
       = toString (sampleChainedReference 4)
   \<and> getActionAmount sampleChainedReference ''7'' Exit Middle 5
       = toString (sampleChainedReference 4)"
  using getActionAmount_cases [of TokenIn Join sampleChainedReference "''7''" 5]
    getActionAmount_cases [of Middle BatchSwap sampleChainedReference "''7''" 5]
    getActionAmount_cases [of TokenOut BatchSwap sampleChainedReference "''7''" 5]
    getActionAmount_cases [of Middle Exit sampleChainedReference "''7''" 5]
  by simp

text \<open>
  C4. \<open>getActionOutputRef\<close> allocates the reference
  \<open>{index: tokenOutIndex, key: toChainedReference(k)}\<close> and returns \<open>k + 1\<close> for the
  steps TokenIn and Middle, and returns the empty reference with the counter
  unchanged for Direct and TokenOut; the counter moves exactly when the step is
  TokenIn or Middle. Threading the counter through any sequence of calls adds
  the number of TokenIn and Middle steps to it, so it never decreases.
\<close>

theorem getActionOutputRef_counter:
  "getActionOutputRef r TokenIn i k = (Some \<lparr>index = i, key = r k\<rparr>, k + 1)
   \<and> getActionOutputRef r Middle i k = (Some \<lparr>index = i, key = r k\<rparr>, k + 1)
   \<and> getActionOutputRef r Direct i k = (None, k)
   \<and> getActionOutputRef r TokenOut i k = (None, k)
   \<and> (snd (getActionOutputRef r s i k) = k + 1) = (s = TokenIn \<or> s = Middle)
   \<and> (fst (getActionOutputRef r s i k) = None) = (s = Direct \<or> s = TokenOut)
   \<and> getActionOutputRef r TokenOut i 5 = (None, 5)
   \<and> getActionOutputRef r Middle 2 5 = (Some \<lparr>index = 2, key = r 5\<rparr>, 6)
   \<and> threadOpRefKey r steps k = k + int (length (filter allocates steps))
   \<and> k \<le> threadOpRefKey r steps k"
  by (cases s) (simp_all add: getActionOutputRef_def getOutputRef_def threadOpRefKey_count)

theorem getActionOutputRef_counter_witness:
  "getActionOutputRef sampleChainedReference Middle 2 5
     = (Some \<lparr>index = 2, key = 1005\<rparr>, 6)
   \<and> getActionOutputRef sampleChainedReference TokenOut 2 5 = (None, 5)
   \<and> threadOpRefKey sampleChainedReference
        [(TokenIn, 1), (Middle, 2), (Direct, 0), (TokenOut, 3)] 5 = 7"
  using getActionOutputRef_counter [of sampleChainedReference 2 5 Middle
      "[(TokenIn, 1), (Middle, 2), (Direct, 0), (TokenOut, 3)]"]
  by (simp add: sampleChainedReference_def allocates_def)

subsection \<open>Action orderer and swap batcher\<close>

lemma categorizeStep_filter:
  "categorizeStep (e, x, m) a
     = (e @ filter isEnter [a], x @ filter isExit [a], m @ filter isMiddle [a])"
  by (cases "type a")
    (simp_all add: categorizeStep_def isEnter_def isExit_def isMiddle_def isJoinExit_def)

lemma categorize_foldl:
  "foldl categorizeStep (e, x, m) as
     = (e @ filter isEnter as, x @ filter isExit as, m @ filter isMiddle as)"
proof (induction as arbitrary: e x m)
  case Nil
  show ?case by simp
next
  case (Cons a as)
  have "foldl categorizeStep (e, x, m) (a # as)
          = foldl categorizeStep
              (e @ filter isEnter [a], x @ filter isExit [a], m @ filter isMiddle [a]) as"
    by (simp only: foldl_Cons categorizeStep_filter)
  also have "\<dots> = ((e @ filter isEnter [a]) @ filter isEnter as,
                     (x @ filter isExit [a]) @ filter isExit as,
                     (m @ filter isMiddle [a]) @ filter isMiddle as)"
    by (rule Cons.IH)
  finally show ?case by simp
qed

lemma categorizeActions_filter:
  "categorizeActions as = filter isEnter as @ filter isMiddle as @ filter isExit as"
  by (simp add: categorizeActions_def categorize_foldl)

lemma batchStep_shift:
  "batchStep (out, agg) a
     = (out @ fst (batchStep ([], agg) a), snd (batchStep ([], agg) a))"
  by (simp add: batchStep_def split: option.splits)

lemma batch_foldl_shift:
  "foldl batchStep (out, agg) as
     = (out @ fst (foldl batchStep ([], agg) as), snd (foldl batchStep ([], agg) as))"
proof (induction as arbitrary: out agg)
  case Nil
  show ?case by simp
next
  case (Cons a as)
  obtain o1 g1 where s1: "batchStep ([], agg) a = (o1, g1)"
    by (cases "batchStep ([], agg) a")
  have s2: "batchStep (out, agg) a = (out @ o1, g1)"
    using batchStep_shift [of out agg a] s1 by simp
  show ?case
    using Cons.IH [of "out @ o1" g1] Cons.IH [of o1 g1]
    by (simp add: s1 s2)
qed

lemma batchStep_nonswap:
  "type j \<noteq> BatchSwap \<Longrightarrow> batchStep (out, agg) j = (out @ flush agg @ [j], None)"
  by (simp add: batchStep_def flush_def split: option.splits)

lemma batchSwapActions_split:
  assumes "type j \<noteq> BatchSwap"
  shows "batchSwapActions (as @ j # bs) = batchFlushed as @ j # batchSwapActions bs"
proof -
  obtain o1 g1 where s1: "foldl batchStep ([], None) as = (o1, g1)"
    by (cases "foldl batchStep ([], None) as")
  obtain o2 g2 where s2: "foldl batchStep ([], None) bs = (o2, g2)"
    by (cases "foldl batchStep ([], None) bs")
  have "foldl batchStep ([], None) (as @ j # bs)
          = foldl batchStep (o1 @ flush g1 @ [j], None) bs"
    by (simp add: s1 batchStep_nonswap [OF assms])
  also have "\<dots> = ((o1 @ flush g1 @ [j]) @ o2, g2)"
    using batch_foldl_shift [of "o1 @ flush g1 @ [j]" None bs] by (simp add: s2)
  finally show ?thesis
    by (simp add: batchSwapActions_def batchFlushed_def s1 s2 split: option.splits)
qed

lemma batchFlushed_split:
  assumes "type j \<noteq> BatchSwap"
  shows "batchFlushed (as @ j # bs) = batchFlushed as @ j # batchFlushed bs"
proof -
  obtain o1 g1 where s1: "foldl batchStep ([], None) as = (o1, g1)"
    by (cases "foldl batchStep ([], None) as")
  obtain o2 g2 where s2: "foldl batchStep ([], None) bs = (o2, g2)"
    by (cases "foldl batchStep ([], None) bs")
  have "foldl batchStep ([], None) (as @ j # bs)
          = foldl batchStep (o1 @ flush g1 @ [j], None) bs"
    by (simp add: s1 batchStep_nonswap [OF assms])
  also have "\<dots> = ((o1 @ flush g1 @ [j]) @ o2, g2)"
    using batch_foldl_shift [of "o1 @ flush g1 @ [j]" None bs] by (simp add: s2)
  finally show ?thesis
    by (simp add: batchFlushed_def s1 s2)
qed

lemma batchSwapActions_Nil: "batchSwapActions [] = []"
  by (simp add: batchSwapActions_def)

lemma batchFlushed_Nil: "batchFlushed [] = []"
  by (simp add: batchFlushed_def flush_def)

lemma batchSwapActions_nonswap_Cons:
  "type j \<noteq> BatchSwap \<Longrightarrow> batchSwapActions (j # bs) = j # batchSwapActions bs"
  using batchSwapActions_split [of j "[]" bs] by (simp add: batchFlushed_Nil)

lemma batchSwapActions_nonswaps:
  "list_all (\<lambda>a. type a \<noteq> BatchSwap) es \<Longrightarrow> batchSwapActions (es @ bs) = es @ batchSwapActions bs"
  by (induction es) (simp_all add: batchSwapActions_nonswap_Cons)

lemma batchSwapActions_single:
  "type a = BatchSwap \<Longrightarrow> batchSwapActions [a] = (if length (swaps a) = 1 then [a] else [])"
  by (simp add: batchSwapActions_def batchStep_def copy_def)

lemma batchSwapActions_merge:
  "type a = BatchSwap \<Longrightarrow> type b = BatchSwap \<Longrightarrow> canAddSwap a b
   \<Longrightarrow> batchSwapActions (a # b # rest) = batchSwapActions (addSwap a b # rest)"
  by (simp add: batchSwapActions_def batchStep_def copy_def addSwap_def)

lemma batchSwapActions_nomerge:
  assumes "type a = BatchSwap" "type b = BatchSwap" "\<not> canAddSwap a b"
  shows "batchSwapActions (a # b # rest) = a # batchSwapActions (b # rest)"
proof -
  obtain o2 g2 where s2: "foldl batchStep ([], Some b) rest = (o2, g2)"
    by (cases "foldl batchStep ([], Some b) rest")
  have "foldl batchStep ([], None) (a # b # rest) = foldl batchStep ([a], Some b) rest"
    using assms by (simp add: batchStep_def copy_def)
  also have "\<dots> = ([a] @ o2, g2)"
    using batch_foldl_shift [of "[a]" "Some b" rest] by (simp add: s2)
  finally have l: "foldl batchStep ([], None) (a # b # rest) = (a # o2, g2)"
    by simp
  have r: "foldl batchStep ([], None) (b # rest) = (o2, g2)"
    using assms s2 by (simp add: batchStep_def copy_def)
  show ?thesis
    unfolding batchSwapActions_def l r by (simp split: option.splits)
qed


lemma isJoinExit_iff: "isJoinExit a = (type a \<noteq> BatchSwap)"
  by (cases "type a") (simp_all add: isJoinExit_def)

lemma swapSteps_append: "swapSteps (xs @ ys) = swapSteps xs @ swapSteps ys"
  by (simp add: swapSteps_def)

lemma batchStep_inv:
  assumes st: "batchStep (out, agg) a = (out', agg')"
    and ok: "\<forall>b. agg = Some b \<longrightarrow> type b = BatchSwap"
  shows "(\<forall>b. agg' = Some b \<longrightarrow> type b = BatchSwap)
    \<and> filter isJoinExit out' = filter isJoinExit out @ filter isJoinExit [a]
    \<and> swapSteps out' @ swapSteps (flush agg') = swapSteps out @ swapSteps (flush agg) @ swapSteps [a]
    \<and> (list_all isMiddle out \<and> isMiddle a \<longrightarrow> list_all isMiddle out')"
proof (cases "type a = BatchSwap")
  case True
  show ?thesis
  proof (cases agg)
    case None
    with True st show ?thesis
      by (auto simp: batchStep_def copy_def isJoinExit_iff swapSteps_def flush_def)
  next
    case (Some b)
    with ok have tb: "type b = BatchSwap" by simp
    show ?thesis
    proof (cases "canAddSwap b a")
      case c: True
      with True Some st tb show ?thesis
        by (auto simp: batchStep_def addSwap_def isJoinExit_iff swapSteps_def flush_def)
    next
      case c: False
      with True Some st tb show ?thesis
        by (auto simp: batchStep_def copy_def isJoinExit_iff swapSteps_def flush_def
            isMiddle_def)
    qed
  qed
next
  case False
  have "batchStep (out, agg) a = (out @ flush agg @ [a], None)"
    using False by (rule batchStep_nonswap)
  with st have o: "out' = out @ flush agg @ [a]" and g: "agg' = None" by simp_all
  show ?thesis
    using False ok
    by (cases agg) (auto simp: o g flush_def isJoinExit_iff swapSteps_def isMiddle_def)
qed

lemma batch_foldl_inv:
  "foldl batchStep (out, agg) as = (out', agg')
   \<Longrightarrow> \<forall>b. agg = Some b \<longrightarrow> type b = BatchSwap
   \<Longrightarrow> (\<forall>b. agg' = Some b \<longrightarrow> type b = BatchSwap)
    \<and> filter isJoinExit out' = filter isJoinExit out @ filter isJoinExit as
    \<and> swapSteps out' @ swapSteps (flush agg') = swapSteps out @ swapSteps (flush agg) @ swapSteps as
    \<and> (list_all isMiddle out \<and> list_all isMiddle as \<longrightarrow> list_all isMiddle out')"
proof (induction as arbitrary: out agg)
  case Nil
  then show ?case by (simp add: swapSteps_def)
next
  case (Cons a as)
  obtain o1 g1 where s1: "batchStep (out, agg) a = (o1, g1)"
    by (cases "batchStep (out, agg) a")
  note i1 = batchStep_inv [OF s1 Cons.prems(2)]
  have f: "foldl batchStep (o1, g1) as = (out', agg')"
    using Cons.prems(1) by (simp add: s1)
  have ok1: "\<forall>b. g1 = Some b \<longrightarrow> type b = BatchSwap" using i1 by blast
  note i2 = Cons.IH [OF f ok1]
  have sw: "swapSteps (a # as) = swapSteps [a] @ swapSteps as"
    using swapSteps_append [of "[a]" as] by simp
  show ?case
    using i1 i2 by (simp add: sw)
qed

lemma batch_scan_inv:
  assumes "foldl batchStep ([], None) as = (out, agg)"
  shows "(\<forall>b. agg = Some b \<longrightarrow> type b = BatchSwap)
    \<and> filter isJoinExit out = filter isJoinExit as
    \<and> swapSteps out @ swapSteps (flush agg) = swapSteps as
    \<and> (list_all isMiddle as \<longrightarrow> list_all isMiddle out)"
proof -
  have e: "swapSteps ([] :: 'a Actions list) = []" "flush (None :: 'a Actions option) = []"
    by (simp_all add: swapSteps_def flush_def)
  show ?thesis
    using batch_foldl_inv [OF assms] by (simp add: e)
qed

lemma swapSteps_flush_Some:
  "type b = BatchSwap \<Longrightarrow> swapSteps (flush (Some b)) = swaps b"
  by (simp add: swapSteps_def flush_def)

lemma batchFlushed_props:
  "filter isJoinExit (batchFlushed as) = filter isJoinExit as
   \<and> swapSteps (batchFlushed as) = swapSteps as
   \<and> (list_all isMiddle as \<longrightarrow> list_all isMiddle (batchFlushed as))"
proof -
  obtain out agg where s: "foldl batchStep ([], None) as = (out, agg)"
    by (cases "foldl batchStep ([], None) as")
  note i = batch_scan_inv [OF s]
  have fl: "filter isJoinExit (flush agg) = []"
    using i by (cases agg) (simp_all add: flush_def isJoinExit_iff)
  have mid: "list_all isMiddle (flush agg)"
    using i by (cases agg) (simp_all add: flush_def isMiddle_def)
  show ?thesis
    using i fl mid by (simp add: batchFlushed_def s swapSteps_append)
qed

lemma batchSwapActions_props:
  "filter isJoinExit (batchSwapActions as) = filter isJoinExit as
   \<and> prefix (swapSteps (batchSwapActions as)) (swapSteps as)
   \<and> (list_all isMiddle as \<longrightarrow> list_all isMiddle (batchSwapActions as))"
proof -
  obtain out agg where s: "foldl batchStep ([], None) as = (out, agg)"
    by (cases "foldl batchStep ([], None) as")
  note i = batch_scan_inv [OF s]
  have fl: "filter isJoinExit (flush agg) = []"
    using i by (cases agg) (simp_all add: flush_def isJoinExit_iff)
  have mid: "list_all isMiddle (flush agg)"
    using i by (cases agg) (simp_all add: flush_def isMiddle_def)
  have pre: "prefix (swapSteps out) (swapSteps as)"
    using i by (metis prefixI)
  have r: "batchSwapActions as = out \<or> batchSwapActions as = out @ flush agg"
    by (cases agg) (simp_all add: batchSwapActions_def s flush_def)
  from r show ?thesis
  proof
    assume "batchSwapActions as = out"
    then show ?thesis using i pre by simp
  next
    assume "batchSwapActions as = out @ flush agg"
    then show ?thesis using i fl mid by (simp add: swapSteps_append)
  qed
qed


lemma partition_exclusive:
  "(isEnter a \<longrightarrow> \<not> isMiddle a \<and> \<not> isExit a) \<and> (isMiddle a \<longrightarrow> \<not> isExit a)
   \<and> (isEnter a \<or> isMiddle a \<or> isExit a)"
  by (cases "type a") (auto simp: isEnter_def isMiddle_def isExit_def isJoinExit_def)

lemma list_all_filter_self: "list_all P (filter P xs)"
  by (induction xs) simp_all

lemma orderActions_decomp:
  "orderActions as = filter isEnter as @ middleBatched as @ filter isExit as"
proof -
  let ?E = "filter isEnter as" and ?M = "filter isMiddle as" and ?X = "filter isExit as"
  have nsE: "list_all (\<lambda>a. type a \<noteq> BatchSwap) ?E"
    by (induction as) (simp_all add: isEnter_def isJoinExit_iff)
  have nsX: "list_all (\<lambda>a. type a \<noteq> BatchSwap) ?X"
    by (induction as) (simp_all add: isExit_def isJoinExit_iff)
  have 1: "orderActions as = ?E @ batchSwapActions (?M @ ?X)"
    using batchSwapActions_nonswaps [OF nsE, of "?M @ ?X"]
    by (simp add: orderActions_def categorizeActions_filter)
  show ?thesis
  proof (cases ?X)
    case Nil
    then show ?thesis by (simp add: 1 middleBatched_def)
  next
    case (Cons j X')
    with nsX have tj: "type j \<noteq> BatchSwap" and nsX': "list_all (\<lambda>a. type a \<noteq> BatchSwap) X'"
      by simp_all
    have "batchSwapActions (?M @ j # X') = batchFlushed ?M @ j # batchSwapActions X'"
      using tj by (rule batchSwapActions_split)
    moreover have "batchSwapActions X' = X'"
      using batchSwapActions_nonswaps [OF nsX', of "[]"] by (simp add: batchSwapActions_Nil)
    ultimately show ?thesis
      by (simp add: 1 Cons middleBatched_def)
  qed
qed

lemma middleBatched_props:
  "list_all isMiddle (middleBatched as)
   \<and> filter isJoinExit (middleBatched as) = filter isJoinExit (filter isMiddle as)
   \<and> prefix (swapSteps (middleBatched as)) (swapSteps (filter isMiddle as))"
  using batchFlushed_props [of "filter isMiddle as"]
    batchSwapActions_props [of "filter isMiddle as"]
    list_all_filter_self [of isMiddle as]
  by (simp add: middleBatched_def)

lemma sorted_rank:
  assumes "list_all isEnter es" "list_all isMiddle ms" "list_all isExit xs"
  shows "sorted (map partitionRank (es @ ms @ xs))"
proof -
  have e: "\<forall>a \<in> set es. partitionRank a = 0"
    using assms(1) by (auto simp: list_all_iff partitionRank_def)
  have m: "\<forall>a \<in> set ms. partitionRank a = 1"
    using assms(2) partition_exclusive by (auto simp: list_all_iff partitionRank_def)
  have x: "\<forall>a \<in> set xs. partitionRank a = 2"
    using assms(3) partition_exclusive by (auto simp: list_all_iff partitionRank_def)
  have c: "\<And>ys (k::nat). \<forall>a \<in> set ys. partitionRank a = k \<Longrightarrow> sorted (map partitionRank ys)"
    subgoal for ys k by (induction ys) auto
    done
  show ?thesis
    using e m x c [OF e] c [OF m] c [OF x] by (auto simp: sorted_append)
qed

text \<open>
  What the orderer does on every input. \<open>categorizeActions\<close> is the stable
  partition of its input into enter, middle and exit actions. The output of
  \<open>orderActions\<close> is the enter actions of the input in input order, then a segment
  of middle actions only, then the exit actions of the input in input order.
  Its items are an initial part of the items of the categorized list, and all
  of them when the input has an exit action: the batcher merges, it does not
  reorder, and what it can lose is at the end of the middle segment.
\<close>

lemma orderActions_structure:
  "categorizeActions as = filter isEnter as @ filter isMiddle as @ filter isExit as
   \<and> orderActions as = filter isEnter as @ middleBatched as @ filter isExit as
   \<and> list_all isMiddle (middleBatched as)
   \<and> sorted (map partitionRank (categorizeActions as))
   \<and> sorted (map partitionRank (orderActions as))
   \<and> filter isEnter (orderActions as) = filter isEnter as
   \<and> filter isExit (orderActions as) = filter isExit as
   \<and> filter isJoinExit (filter isMiddle (orderActions as))
       = filter isJoinExit (filter isMiddle as)
   \<and> prefix (swapSteps (orderActions as)) (swapSteps as)"
proof -
  let ?E = "filter isEnter as" and ?M = "filter isMiddle as" and ?X = "filter isExit as"
  let ?B = "middleBatched as"
  note mb = middleBatched_props [of as]
  have aE: "list_all isEnter ?E" and aM: "list_all isMiddle ?M" and aX: "list_all isExit ?X"
    by (rule list_all_filter_self)+
  have aB: "list_all isMiddle ?B" using mb by simp
  have s1: "sorted (map partitionRank (categorizeActions as))"
    using sorted_rank [OF aE aM aX] by (simp add: categorizeActions_filter)
  have s2: "sorted (map partitionRank (orderActions as))"
    using sorted_rank [OF aE aB aX] by (simp add: orderActions_decomp)
  have n1: "filter isEnter ?B = []" "filter isExit ?B = []" "filter isMiddle ?B = ?B"
    using aB partition_exclusive by (auto simp: list_all_iff filter_empty_conv filter_id_conv)
  have n2: "filter isEnter ?X = []" "filter isMiddle ?X = []"
    using partition_exclusive by (auto simp: filter_empty_conv)
  have n3: "filter isExit ?E = []" "filter isMiddle ?E = []"
    using partition_exclusive by (auto simp: filter_empty_conv)
  have n4: "filter isEnter ?E = ?E" "filter isExit ?X = ?X"
    by (simp_all add: filter_id_conv)
  have f1: "filter isEnter (orderActions as) = ?E"
    by (simp add: orderActions_decomp n1 n2 n4 del: filter_filter)
  have f2: "filter isExit (orderActions as) = ?X"
    by (simp add: orderActions_decomp n1 n3 n4 del: filter_filter)
  have f3: "filter isJoinExit (filter isMiddle (orderActions as)) = filter isJoinExit ?M"
    using mb by (simp add: orderActions_decomp n1 n2 n3 del: filter_filter)
  have "filter (\<lambda>a. type a = BatchSwap) ?E = []"
    by (induction as) (simp_all add: isEnter_def isJoinExit_iff)
  moreover have "filter (\<lambda>a. type a = BatchSwap) ?X = []"
    by (induction as) (simp_all add: isExit_def isJoinExit_iff)
  ultimately have swE: "swapSteps ?E = []" "swapSteps ?X = []"
    by (simp_all only: swapSteps_def list.map concat.simps)
  have swM: "swapSteps ?M = swapSteps as"
  proof -
    have "filter (\<lambda>a. type a = BatchSwap) ?M = filter (\<lambda>a. type a = BatchSwap) as"
      by (induction as) (simp_all add: isMiddle_def)
    then show ?thesis by (simp add: swapSteps_def)
  qed
  have f4: "prefix (swapSteps (orderActions as)) (swapSteps as)"
    using mb by (simp add: orderActions_decomp swapSteps_append swE swM)
  show ?thesis
    using categorizeActions_filter [of as] orderActions_decomp [of as] aB s1 s2 f1 f2 f3 f4
    by simp
qed

lemma actionItems_append: "actionItems (xs @ ys) = actionItems xs @ actionItems ys"
  by (simp add: actionItems_def)

lemma actionItems_Nil: "actionItems [] = []"
  by (simp add: actionItems_def)

lemma actionItems_flush_None: "actionItems (flush None) = []"
  by (simp add: actionItems_def flush_def)

lemma batchStep_items:
  assumes st: "batchStep (out, agg) a = (out', agg')"
    and ok: "\<forall>b. agg = Some b \<longrightarrow> type b = BatchSwap"
  shows "actionItems out' @ actionItems (flush agg')
           = actionItems out @ actionItems (flush agg) @ actionItems [a]"
proof (cases "type a = BatchSwap")
  case True
  show ?thesis
  proof (cases agg)
    case None
    with True st show ?thesis
      by (auto simp: batchStep_def copy_def actionItems_def flush_def)
  next
    case (Some b)
    with ok have tb: "type b = BatchSwap" by simp
    show ?thesis
    proof (cases "canAddSwap b a")
      case c: True
      with True Some st tb show ?thesis
        by (auto simp: batchStep_def addSwap_def actionItems_def flush_def)
    next
      case c: False
      with True Some st tb show ?thesis
        by (auto simp: batchStep_def copy_def actionItems_def flush_def)
    qed
  qed
next
  case False
  have "batchStep (out, agg) a = (out @ flush agg @ [a], None)"
    using False by (rule batchStep_nonswap)
  with st have o: "out' = out @ flush agg @ [a]" and g: "agg' = None" by simp_all
  show ?thesis
    by (simp add: o g actionItems_append actionItems_flush_None)
qed

lemma batch_foldl_items:
  "foldl batchStep (out, agg) as = (out', agg')
   \<Longrightarrow> \<forall>b. agg = Some b \<longrightarrow> type b = BatchSwap
   \<Longrightarrow> actionItems out' @ actionItems (flush agg')
         = actionItems out @ actionItems (flush agg) @ actionItems as"
proof (induction as arbitrary: out agg)
  case Nil
  then show ?case by (simp add: actionItems_Nil)
next
  case (Cons a as)
  obtain o1 g1 where s1: "batchStep (out, agg) a = (o1, g1)"
    by (cases "batchStep (out, agg) a")
  have ok1: "\<forall>b. g1 = Some b \<longrightarrow> type b = BatchSwap"
    using batchStep_inv [OF s1 Cons.prems(2)] by blast
  have f: "foldl batchStep (o1, g1) as = (out', agg')"
    using Cons.prems(1) by (simp add: s1)
  have ap: "actionItems (a # as) = actionItems [a] @ actionItems as"
    using actionItems_append [of "[a]" as] by simp
  show ?case
    using Cons.IH [OF f ok1] batchStep_items [OF s1 Cons.prems(2)] by (simp add: ap)
qed

lemma batchFlushed_items: "actionItems (batchFlushed as) = actionItems as"
proof -
  obtain out agg where s: "foldl batchStep ([], None) as = (out, agg)"
    by (cases "foldl batchStep ([], None) as")
  have "actionItems out @ actionItems (flush agg) = actionItems as"
    using batch_foldl_items [OF s] by (simp add: actionItems_Nil actionItems_flush_None)
  then show ?thesis
    by (simp add: batchFlushed_def s actionItems_append)
qed

lemma batchSwapActions_items:
  "prefix (actionItems (batchSwapActions as)) (actionItems as)"
proof -
  obtain out agg where s: "foldl batchStep ([], None) as = (out, agg)"
    by (cases "foldl batchStep ([], None) as")
  have e: "actionItems out @ actionItems (flush agg) = actionItems as"
    using batch_foldl_items [OF s] by (simp add: actionItems_Nil actionItems_flush_None)
  have r: "batchSwapActions as = out \<or> batchSwapActions as = out @ flush agg"
    by (cases agg) (simp_all add: batchSwapActions_def s flush_def)
  from r show ?thesis
  proof
    assume "batchSwapActions as = out"
    then show ?thesis using e by (metis prefixI)
  next
    assume "batchSwapActions as = out @ flush agg"
    then show ?thesis using e by (simp add: actionItems_append)
  qed
qed

lemma actionItems_nonswaps:
  "list_all (\<lambda>a. type a \<noteq> BatchSwap) es \<Longrightarrow> actionItems es = map Inl es"
  by (induction es) (simp_all add: actionItems_def)

lemma orderActions_items:
  "prefix (actionItems (orderActions as)) (actionItems (categorizeActions as))
   \<and> (filter isExit as \<noteq> []
      \<longrightarrow> actionItems (orderActions as) = actionItems (categorizeActions as))"
proof -
  have p: "prefix (actionItems (orderActions as)) (actionItems (categorizeActions as))"
    using batchSwapActions_items [of "categorizeActions as"] by (simp add: orderActions_def)
  have "actionItems (orderActions as) = actionItems (categorizeActions as)"
    if "filter isExit as \<noteq> []"
    using that batchFlushed_items [of "filter isMiddle as"]
    by (simp add: orderActions_decomp categorizeActions_filter middleBatched_def
        actionItems_append)
  with p show ?thesis by simp
qed

text \<open>
  C1. The output of \<open>orderActions\<close> is not the stable partition of its input. Of
  two one-step swaps funded externally, both of them middle actions that
  \<open>categorizeActions\<close> keeps in order, nothing is left in the output: the merged
  pair is in progress at the end of the batcher's scan and has two steps. The
  same two swaps followed by an exit action are kept, merged into one
  aggregate.
\<close>

theorem orderActions_loses_middle_swaps:
  "orderActions [sampleSwap ''A'' ExternalBalance, sampleSwap ''B'' ExternalBalance] = []
   \<and> filter isMiddle [sampleSwap ''A'' ExternalBalance, sampleSwap ''B'' ExternalBalance]
       = [sampleSwap ''A'' ExternalBalance, sampleSwap ''B'' ExternalBalance]
   \<and> categorizeActions [sampleSwap ''A'' ExternalBalance, sampleSwap ''B'' ExternalBalance]
       = [sampleSwap ''A'' ExternalBalance, sampleSwap ''B'' ExternalBalance]
   \<and> orderActions [sampleSwap ''A'' ExternalBalance, sampleSwap ''B'' ExternalBalance,
        sampleExit]
       = [addSwap (sampleSwap ''A'' ExternalBalance) (sampleSwap ''B'' ExternalBalance),
          sampleExit]"
  by (simp add: orderActions_def categorizeActions_def categorizeStep_def
      batchSwapActions_def batchStep_def copy_def canAddSwap_def addSwap_def
      isMiddle_def sampleSwap_def sampleExit_def)

lemma addSwap_type: "type (addSwap a b) = type a"
  by (simp add: addSwap_def)

text \<open>
  C2. The loop of \<open>batchSwapActions\<close>, read as a recursion on the list: a Join or
  Exit is appended after the aggregate in progress (if any) and the scan starts
  afresh behind it; a BatchSwap that the aggregate accepts (\<open>canAddSwap\<close>) is
  merged into it and one that it refuses closes it and opens a new one; at the
  end of the list an aggregate of exactly one swap step is appended. On
  \<open>[Join, SwapA, SwapB, Exit]\<close> with A and B both funded externally the result is
  the three elements \<open>[Join, merged(A,B), Exit]\<close>.
\<close>

theorem batchSwapActions_scan:
  "batchSwapActions [] = ([] :: 's Actions list)
   \<and> (type a = BatchSwap
        \<longrightarrow> batchSwapActions [a] = (if length (swaps a) = 1 then [a] else []))
   \<and> (type j \<noteq> BatchSwap
        \<longrightarrow> batchSwapActions (j # rest) = j # batchSwapActions rest
          \<and> batchSwapActions (pre @ j # rest) = batchFlushed pre @ j # batchSwapActions rest)
   \<and> (type a = BatchSwap \<and> type j \<noteq> BatchSwap
        \<longrightarrow> batchSwapActions (a # j # rest) = a # j # batchSwapActions rest)
   \<and> (type a = BatchSwap \<and> type b = BatchSwap \<and> canAddSwap a b
        \<longrightarrow> batchSwapActions (a # b # rest) = batchSwapActions (addSwap a b # rest))
   \<and> (type a = BatchSwap \<and> type b = BatchSwap \<and> \<not> canAddSwap a b
        \<longrightarrow> batchSwapActions (a # b # rest) = a # batchSwapActions (b # rest))
   \<and> (type j = Join \<and> type a = BatchSwap \<and> type b = BatchSwap \<and> type e = Exit
        \<and> fundingSource a = ExternalBalance \<and> fundingSource b = ExternalBalance
        \<longrightarrow> batchSwapActions [j, a, b, e] = [j, addSwap a b, e]
          \<and> length (batchSwapActions [j, a, b, e]) = 3)"
proof -
  have c2: "type a = BatchSwap \<Longrightarrow> batchSwapActions [a] = (if length (swaps a) = 1 then [a] else [])"
    by (rule batchSwapActions_single)
  have c3: "type j \<noteq> BatchSwap \<Longrightarrow> batchSwapActions (j # rest) = j # batchSwapActions rest"
    by (rule batchSwapActions_nonswap_Cons)
  have c3': "type j \<noteq> BatchSwap
      \<Longrightarrow> batchSwapActions (pre @ j # rest) = batchFlushed pre @ j # batchSwapActions rest"
    by (rule batchSwapActions_split)
  have c4: "type a = BatchSwap \<Longrightarrow> type j \<noteq> BatchSwap
      \<Longrightarrow> batchSwapActions (a # j # rest) = a # j # batchSwapActions rest"
    using batchSwapActions_split [of j "[a]" rest]
    by (simp add: batchFlushed_def batchStep_def copy_def flush_def)
  have c5: "type a = BatchSwap \<Longrightarrow> type b = BatchSwap \<Longrightarrow> canAddSwap a b
      \<Longrightarrow> batchSwapActions (a # b # rest) = batchSwapActions (addSwap a b # rest)"
    by (rule batchSwapActions_merge)
  have c6: "type a = BatchSwap \<Longrightarrow> type b = BatchSwap \<Longrightarrow> \<not> canAddSwap a b
      \<Longrightarrow> batchSwapActions (a # b # rest) = a # batchSwapActions (b # rest)"
    by (rule batchSwapActions_nomerge)
  have c7: "batchSwapActions [j, a, b, e] = [j, addSwap a b, e]"
    if h: "type j = Join" "type a = BatchSwap" "type b = BatchSwap" "type e = Exit"
      "fundingSource a = ExternalBalance" "fundingSource b = ExternalBalance"
  proof -
    have tj: "type j \<noteq> BatchSwap" and te: "type e \<noteq> BatchSwap" using h by simp_all
    have ca: "canAddSwap a b" using h by (simp add: canAddSwap_def)
    have "batchSwapActions [j, a, b, e] = j # batchSwapActions [a, b, e]"
      using tj by (rule batchSwapActions_nonswap_Cons)
    also have "batchSwapActions [a, b, e] = batchSwapActions [addSwap a b, e]"
      using h(2,3) ca by (rule batchSwapActions_merge)
    also have "batchSwapActions [addSwap a b, e] = batchFlushed [addSwap a b] @ e # batchSwapActions []"
      using batchSwapActions_split [OF te, of "[addSwap a b]" "[]"] by simp
    also have "batchFlushed [addSwap a b] = [addSwap a b]"
      using h(2) by (simp add: batchFlushed_def batchStep_def addSwap_type copy_def flush_def)
    finally show ?thesis by (simp add: batchSwapActions_Nil)
  qed
  show ?thesis
    using c2 c3 c3' c4 c5 c6 c7 by (simp add: batchSwapActions_Nil)
qed

theorem batchSwapActions_scan_witness:
  "batchSwapActions [sampleJoin, sampleSwap ''A'' ExternalBalance,
       sampleSwap ''B'' ExternalBalance, sampleExit]
     = [sampleJoin,
        \<lparr>type = BatchSwap, poolId = [], hasTokenIn = False, hasTokenOut = False,
          swaps = [''A'', ''B''], fundingSource = ExternalBalance\<rparr>,
        sampleExit]
   \<and> batchSwapActions [sampleSwap ''A'' ExternalBalance, sampleSwap ''C'' InternalBalance]
     = [sampleSwap ''A'' ExternalBalance, sampleSwap ''C'' InternalBalance]"
  using batchSwapActions_scan [where j = sampleJoin and a = "sampleSwap ''A'' ExternalBalance"
      and b = "sampleSwap ''B'' ExternalBalance" and e = sampleExit and rest = "[]"
      and pre = "[]"]
    batchSwapActions_scan [where j = sampleJoin and a = "sampleSwap ''A'' ExternalBalance"
      and b = "sampleSwap ''C'' InternalBalance" and e = sampleExit and rest = "[]"
      and pre = "[]"]
    batchSwapActions_scan [where j = sampleJoin and a = "sampleSwap ''C'' InternalBalance"
      and b = "sampleSwap ''C'' InternalBalance" and e = sampleExit and rest = "[]"
      and pre = "[]"]
  by (auto simp: sampleJoin_def sampleSwap_def sampleExit_def addSwap_def canAddSwap_def)

text \<open>
  C10. When the scan ends with an aggregate of two or more swap steps in
  progress, the aggregate is not appended: the result is what the scan had
  already output, and it holds fewer swap steps than the input, the steps of
  the aggregate being the missing ones. This happens when the input ends with
  two BatchSwap actions that merge, and when it ends with one BatchSwap action
  of two or more steps, at the start of the list or behind a Join or Exit.
\<close>

theorem batchSwapActions_drops_trailing:
  "(foldl batchStep ([], None) as = (out, Some g) \<and> 2 \<le> length (swaps g)
      \<longrightarrow> batchSwapActions as = out
        \<and> swapSteps (batchSwapActions as) @ swaps g = swapSteps as
        \<and> length (swapSteps (batchSwapActions as)) < length (swapSteps as))
   \<and> (type a = BatchSwap \<and> type b = BatchSwap \<and> canAddSwap a b
        \<and> swaps a \<noteq> [] \<and> swaps b \<noteq> []
      \<longrightarrow> batchSwapActions [a, b] = []
        \<and> (type j \<noteq> BatchSwap
             \<longrightarrow> batchSwapActions (pre @ [j, a, b]) = batchSwapActions (pre @ [j])))
   \<and> (type a = BatchSwap \<and> 2 \<le> length (swaps a)
      \<longrightarrow> batchSwapActions [a] = []
        \<and> (type j \<noteq> BatchSwap
             \<longrightarrow> batchSwapActions (pre @ [j, a]) = batchSwapActions (pre @ [j])))"
proof -
  have p1: "batchSwapActions as = out
        \<and> swapSteps (batchSwapActions as) @ swaps g = swapSteps as
        \<and> length (swapSteps (batchSwapActions as)) < length (swapSteps as)"
    if s: "foldl batchStep ([], None) as = (out, Some g)" and l: "2 \<le> length (swaps g)"
  proof -
    note i = batch_scan_inv [OF s]
    have tg: "type g = BatchSwap" using i by simp
    have o: "batchSwapActions as = out"
      using l by (simp add: batchSwapActions_def s)
    have e: "swapSteps out @ swaps g = swapSteps as"
      using i swapSteps_flush_Some [OF tg] by simp
    have "length (swapSteps out) + length (swaps g) = length (swapSteps as)"
      using e by (metis length_append)
    then show ?thesis using o e l by simp
  qed
  have p2: "batchSwapActions [a, b] = []"
    if "type a = BatchSwap" "type b = BatchSwap" "canAddSwap a b" "swaps a \<noteq> []" "swaps b \<noteq> []"
  proof -
    have "0 < length (swaps a)" "0 < length (swaps b)" using that by simp_all
    then have "length (swaps a) + length (swaps b) \<noteq> Suc 0" by arith
    then show ?thesis
      using that(1,2,3) by (simp add: batchSwapActions_def batchStep_def copy_def addSwap_def)
  qed
  have p3: "batchSwapActions [a] = []" if "type a = BatchSwap" "2 \<le> length (swaps a)"
    using that by (simp add: batchSwapActions_single)
  have p4: "batchSwapActions (pre @ [j] @ ys) = batchSwapActions (pre @ [j])"
    if "type j \<noteq> BatchSwap" "batchSwapActions ys = []" for ys
    using batchSwapActions_split [OF that(1), of pre ys]
      batchSwapActions_split [OF that(1), of pre "[]"] that(2)
    by (simp add: batchSwapActions_Nil)
  show ?thesis
    using p1 p2 p3 p4 [of "[a, b]"] p4 [of "[a]"] by (intro conjI impI; elim conjE) simp_all
qed

theorem batchSwapActions_drops_trailing_witness:
  "batchSwapActions [sampleSwap ''A'' ExternalBalance, sampleSwap ''B'' ExternalBalance] = []
   \<and> batchSwapActions [sampleJoin, sampleSwap ''A'' ExternalBalance,
        sampleSwap ''B'' ExternalBalance] = [sampleJoin]
   \<and> batchSwapActions [addSwap (sampleSwap ''A'' ExternalBalance)
        (sampleSwap ''B'' ExternalBalance)] = []
   \<and> swapSteps [sampleSwap ''A'' ExternalBalance, sampleSwap ''B'' ExternalBalance]
       = [''A'', ''B'']"
  using batchSwapActions_drops_trailing [where a = "sampleSwap ''A'' ExternalBalance"
      and b = "sampleSwap ''B'' ExternalBalance" and j = sampleJoin and pre = "[]"
      and as = "[sampleSwap ''A'' ExternalBalance, sampleSwap ''B'' ExternalBalance]"
      and out = "[]"
      and g = "addSwap (sampleSwap ''A'' ExternalBalance) (sampleSwap ''B'' ExternalBalance)"]
    batchSwapActions_drops_trailing [where
      a = "addSwap (sampleSwap ''A'' ExternalBalance) (sampleSwap ''B'' ExternalBalance)"
      and j = sampleJoin and pre = "[]"]
  by (auto simp: sampleJoin_def sampleSwap_def addSwap_def canAddSwap_def batchStep_def
      copy_def batchSwapActions_nonswap_Cons batchSwapActions_Nil swapSteps_def)

text \<open>
  Were the aggregate in progress always appended at the end of the scan
  (\<open>batchFlushed\<close>), the batcher would be idempotent; and \<open>batchSwapActions\<close>
  itself is idempotent on a list that ends with a Join or Exit, where the two
  agree.
\<close>

lemma batchFlushed_nonswap_Cons:
  "type j \<noteq> BatchSwap \<Longrightarrow> batchFlushed (j # bs) = j # batchFlushed bs"
  using batchFlushed_split [of j "[]" bs] by (simp add: batchFlushed_Nil)

lemma batchFlushed_single:
  "type a = BatchSwap \<Longrightarrow> batchFlushed [a] = [a]"
  by (simp add: batchFlushed_def batchStep_def copy_def flush_def)

lemma batchFlushed_swap_nonswap:
  "type a = BatchSwap \<Longrightarrow> type j \<noteq> BatchSwap
   \<Longrightarrow> batchFlushed (a # j # rest) = a # j # batchFlushed rest"
  using batchFlushed_split [of j "[a]" rest] by (simp add: batchFlushed_single)

lemma batchFlushed_merge:
  "type a = BatchSwap \<Longrightarrow> type b = BatchSwap \<Longrightarrow> canAddSwap a b
   \<Longrightarrow> batchFlushed (a # b # rest) = batchFlushed (addSwap a b # rest)"
  by (simp add: batchFlushed_def batchStep_def copy_def addSwap_def)

lemma batchFlushed_nomerge:
  assumes "type a = BatchSwap" "type b = BatchSwap" "\<not> canAddSwap a b"
  shows "batchFlushed (a # b # rest) = a # batchFlushed (b # rest)"
proof -
  obtain o2 g2 where s2: "foldl batchStep ([], Some b) rest = (o2, g2)"
    by (cases "foldl batchStep ([], Some b) rest")
  have "foldl batchStep ([], None) (a # b # rest) = foldl batchStep ([a], Some b) rest"
    using assms by (simp add: batchStep_def copy_def)
  also have "\<dots> = ([a] @ o2, g2)"
    using batch_foldl_shift [of "[a]" "Some b" rest] by (simp add: s2)
  finally have l: "foldl batchStep ([], None) (a # b # rest) = (a # o2, g2)"
    by simp
  have r: "foldl batchStep ([], None) (b # rest) = (o2, g2)"
    using assms s2 by (simp add: batchStep_def copy_def)
  show ?thesis
    unfolding batchFlushed_def l r by simp
qed

lemma batchFlushed_head:
  "type a = BatchSwap
   \<Longrightarrow> \<exists>h t. batchFlushed (a # rest) = h # t \<and> type h = BatchSwap
          \<and> fundingSource h = fundingSource a"
proof (induction rest arbitrary: a)
  case Nil
  then show ?case by (simp add: batchFlushed_single)
next
  case (Cons b rest)
  show ?case
  proof (cases "type b = BatchSwap")
    case False
    then show ?thesis using Cons.prems by (simp add: batchFlushed_swap_nonswap)
  next
    case True
    show ?thesis
    proof (cases "canAddSwap a b")
      case c: True
      have "type (addSwap a b) = BatchSwap" "fundingSource (addSwap a b) = fundingSource a"
        using Cons.prems by (simp_all add: addSwap_def)
      then show ?thesis
        using Cons.IH [of "addSwap a b"] batchFlushed_merge [OF Cons.prems True c, of rest]
        by simp
    next
      case c: False
      then show ?thesis
        using batchFlushed_nomerge [OF Cons.prems True c, of rest] Cons.prems by simp
    qed
  qed
qed

lemma batchFlushed_idempotent: "batchFlushed (batchFlushed as) = batchFlushed as"
proof (induction "length as" arbitrary: as rule: less_induct)
  case less
  show ?case
  proof (cases as)
    case Nil
    then show ?thesis by (simp add: batchFlushed_Nil)
  next
    case (Cons a rest)
    show ?thesis
    proof (cases "type a = BatchSwap")
      case False
      then show ?thesis
        using less [of rest] Cons by (simp add: batchFlushed_nonswap_Cons)
    next
      case ta: True
      show ?thesis
      proof (cases rest)
        case Nil
        then show ?thesis using Cons ta by (simp add: batchFlushed_single)
      next
        case r: (Cons b rest')
        show ?thesis
        proof (cases "type b = BatchSwap")
          case False
          then show ?thesis
            using less [of rest'] Cons r ta by (simp add: batchFlushed_swap_nonswap)
        next
          case tb: True
          show ?thesis
          proof (cases "canAddSwap a b")
            case c: True
            then show ?thesis
              using less [of "addSwap a b # rest'"] Cons r
                batchFlushed_merge [OF ta tb c, of rest']
              by simp
          next
            case c: False
            obtain h t where h: "batchFlushed (b # rest') = h # t" "type h = BatchSwap"
              "fundingSource h = fundingSource b"
              using batchFlushed_head [OF tb, of rest'] by blast
            have nc: "\<not> canAddSwap a h" using c h(3) by (simp add: canAddSwap_def)
            have "batchFlushed (a # h # t) = a # batchFlushed (h # t)"
              using ta h(2) nc by (rule batchFlushed_nomerge)
            moreover have "batchFlushed (batchFlushed (b # rest')) = batchFlushed (b # rest')"
              using less [of "b # rest'"] Cons r by simp
            ultimately show ?thesis
              using Cons r batchFlushed_nomerge [OF ta tb c, of rest'] h(1) by simp
          qed
        qed
      qed
    qed
  qed
qed

lemma batchFlushed_snoc_nonswap:
  "type j \<noteq> BatchSwap \<Longrightarrow> batchSwapActions (as @ [j]) = batchFlushed (as @ [j])"
  using batchSwapActions_split [of j as "[]"] batchFlushed_split [of j as "[]"]
  by (simp add: batchSwapActions_Nil batchFlushed_Nil)

lemma batchSwapActions_idempotent_before_joinExit:
  assumes "type j \<noteq> BatchSwap"
  shows "batchSwapActions (batchSwapActions (as @ [j])) = batchSwapActions (as @ [j])"
proof -
  have 1: "batchSwapActions (as @ [j]) = batchFlushed as @ [j]"
    using batchSwapActions_split [OF assms, of as "[]"] by (simp add: batchSwapActions_Nil)
  have 2: "batchFlushed (as @ [j]) = batchFlushed as @ [j]"
    using batchFlushed_split [OF assms, of as "[]"] by (simp add: batchFlushed_Nil)
  have "batchSwapActions (batchFlushed as @ [j]) = batchFlushed (batchFlushed as @ [j])"
    using assms by (rule batchFlushed_snoc_nonswap)
  also have "\<dots> = batchFlushed (batchFlushed (as @ [j]))" by (simp only: 2)
  also have "\<dots> = batchFlushed (as @ [j])" by (rule batchFlushed_idempotent)
  finally show ?thesis by (simp only: 1 2)
qed

text \<open>
  C6. The batcher is not idempotent. Of four one-step swaps, two funded
  externally and then two funded internally, the first run returns the merged
  first pair only (the merged second pair is in progress at the end of the scan
  and has two steps); the second run drops that aggregate too and returns the
  empty list.
\<close>

theorem batchSwapActions_twice_differs:
  "batchSwapActions [sampleSwap ''A'' ExternalBalance, sampleSwap ''B'' ExternalBalance,
       sampleSwap ''C'' InternalBalance, sampleSwap ''D'' InternalBalance]
     = [addSwap (sampleSwap ''A'' ExternalBalance) (sampleSwap ''B'' ExternalBalance)]
   \<and> batchSwapActions (batchSwapActions
       [sampleSwap ''A'' ExternalBalance, sampleSwap ''B'' ExternalBalance,
        sampleSwap ''C'' InternalBalance, sampleSwap ''D'' InternalBalance]) = []
   \<and> batchSwapActions (batchSwapActions
       [sampleSwap ''A'' ExternalBalance, sampleSwap ''B'' ExternalBalance,
        sampleSwap ''C'' InternalBalance, sampleSwap ''D'' InternalBalance])
     \<noteq> batchSwapActions
       [sampleSwap ''A'' ExternalBalance, sampleSwap ''B'' ExternalBalance,
        sampleSwap ''C'' InternalBalance, sampleSwap ''D'' InternalBalance]"
  by (simp add: batchSwapActions_def batchStep_def copy_def canAddSwap_def addSwap_def
      sampleSwap_def)

subsection \<open>Simulation dispatcher\<close>

lemma decodeEach_values:
  "map (\<lambda>i. decodeUint256 lib (arrayAt bs i)) idxs = map Inr vs
   \<Longrightarrow> decodeEach lib bs idxs acc = Inr (fst acc @ map toString vs, snd acc + sum_list vs)"
proof (induction idxs arbitrary: vs acc)
  case Nil
  then show ?case by simp
next
  case (Cons i idxs)
  from Cons.prems obtain v vs' where vs: "vs = v # vs'"
    and hd: "decodeUint256 lib (arrayAt bs i) = Inr v"
    and tl: "map (\<lambda>i. decodeUint256 lib (arrayAt bs i)) idxs = map Inr vs'"
    by (cases vs) auto
  show ?case
    using Cons.IH [OF tl, of "(fst acc @ [toString v], snd acc + v)"]
    by (simp add: vs hd add.assoc)
qed

lemma decodeEach_Rejected:
  "decodeEach lib bs idxs acc = Inl f \<Longrightarrow> \<exists>e. f = Rejected e"
  by (induction idxs arbitrary: acc) (auto split: sum.splits)

lemma decodeResult_Rejected:
  "decodeResult lib raw idxs = Inl f \<Longrightarrow> \<exists>e. f = Rejected e"
  by (auto simp: decodeResult_def split: sum.splits dest: decodeEach_Rejected)

lemma decodeResult_not_configuration: "\<not> isConfigurationError (decodeResult lib raw idxs)"
  using decodeResult_Rejected [of lib raw idxs]
  by (auto simp: isConfigurationError_def)

lemma vaultModelLoop_not_configuration:
  "\<not> isConfigurationError (snd (vaultModelLoop lib mc st i paths io acc))"
proof (induction paths arbitrary: st i io acc)
  case Nil
  show ?case by (simp add: isConfigurationError_def)
next
  case (Cons requests rest)
  show ?case
    using Cons.IH
    by (auto simp: truthy_def lastRequestPoolId_def isConfigurationError_def Let_def
        split: sum.splits prod.splits option.splits list.splits Requests.splits if_splits)
qed

lemma vaultModelLoop_pathDeltas:
  "(case pathDeltas lib mc st i paths of
      Some ds \<Rightarrow> snd (vaultModelLoop lib mc st i paths io acc)
          = Inr \<lparr>amountsOut = fst acc @ map (\<lambda>d. toString (- d)) ds,
                 totalAmountOut = toString (snd acc + sum_list (map uminus ds))\<rparr>
    | None \<Rightarrow> isFailure (snd (vaultModelLoop lib mc st i paths io acc)))"
proof (induction paths arbitrary: st i io acc)
  case Nil
  show ?case by simp
next
  case (Cons requests rest)
  show ?case
  proof (cases "rootPoolDelta lib mc st (i = 0) requests")
    case None
    then show ?thesis
      by (auto simp: rootPoolDelta_def isFailure_def
          split: sum.splits prod.splits option.splits)
  next
    case (Some p)
    obtain d st' where p: "p = (d, st')" by (cases p)
    from Some p obtain pid a deltas where
      1: "(lastRequestPoolId requests :: 'a Failure + string) = Inr pid"
      and 2: "getPoolAddress lib pid = Inr a"
      and 3: "mc st requests (i = 0) = (Inr deltas, st')"
      and 4: "deltas a = Some d"
      by (auto simp: rootPoolDelta_def split: sum.splits prod.splits option.splits)
    have step: "vaultModelLoop lib mc st i (requests # rest) io acc
        = vaultModelLoop lib mc st' (i + 1) rest (io @ [VaultMulticall requests (i = 0)])
            (fst acc @ [toString (- d)], snd acc + (- d))"
      by (simp add: 1 2 3 4 truthy_def)
    show ?thesis
      using Cons.IH [of st' "i + 1" "io @ [VaultMulticall requests (i = 0)]"
          "(fst acc @ [toString (- d)], snd acc + (- d))"]
      by (simp only: step pathDeltas.simps Some p)
        (auto split: option.splits simp: algebra_simps)
  qed
qed


lemma toString_samples:
  "toString 5 = ''5''" "toString 7 = ''7''" "toString 12 = ''12''"
  "toString 10 = ''10''" "toString 11 = ''11''" "toString 21 = ''21''"
  by (simp_all add: toString_def digitChar_def natToString.simps [of 5]
      natToString.simps [of 7] natToString.simps [of 12] natToString.simps [of 1]
      natToString.simps [of 10] natToString.simps [of 11] natToString.simps [of 21]
      natToString.simps [of 2] natToString.simps [of "Suc 0"])

text \<open>
  C7. \<open>simulateGeneralisedJoin\<close> ends in a configuration error exactly when the
  simulation type is none of Tenderly, VaultModel and Static, or it is
  VaultModel and no vault model was configured. In both cases no call to a
  collaborator has been made, and the result is the error of that case: an
  unsupported type is never served by another strategy.
\<close>

theorem simulateGeneralisedJoin_configuration_errors:
  "isConfigurationError (snd (simulateGeneralisedJoin this lib to multiRequests encodedCall
        outputIndexes userAddress tokensIn signerCall simulationType))
     = ((simulationType \<noteq> Tenderly \<and> simulationType \<noteq> VaultModel
          \<and> simulationType \<noteq> Static)
        \<or> (simulationType = VaultModel \<and> vaultModel this = None))
   \<and> (isConfigurationError (snd (simulateGeneralisedJoin this lib to multiRequests
          encodedCall outputIndexes userAddress tokensIn signerCall simulationType))
      \<longrightarrow> fst (simulateGeneralisedJoin this lib to multiRequests encodedCall
          outputIndexes userAddress tokensIn signerCall simulationType) = [])
   \<and> (simulationType \<noteq> Tenderly \<and> simulationType \<noteq> VaultModel \<and> simulationType \<noteq> Static
      \<longrightarrow> simulateGeneralisedJoin this lib to multiRequests encodedCall outputIndexes
            userAddress tokensIn signerCall simulationType
          = ([], Inl (Error ''Simulation type not supported'')))
   \<and> (simulationType = VaultModel \<and> vaultModel this = None
      \<longrightarrow> simulateGeneralisedJoin this lib to multiRequests encodedCall outputIndexes
            userAddress tokensIn signerCall simulationType
          = ([], Inl (Error ''Missing Vault Model Config.'')))"
proof -
  let ?r = "simulateGeneralisedJoin this lib to multiRequests encodedCall
        outputIndexes userAddress tokensIn signerCall simulationType"
  have ne: "Tenderly \<noteq> VaultModel" "Tenderly \<noteq> Static" "VaultModel \<noteq> Static"
    by (simp_all add: Tenderly_def VaultModel_def Static_def)
  have unsupported: "?r = ([], Inl (Error ''Simulation type not supported''))"
    if "simulationType \<noteq> Tenderly \<and> simulationType \<noteq> VaultModel \<and> simulationType \<noteq> Static"
    using that by (simp add: simulateGeneralisedJoin_def)
  have missing: "?r = ([], Inl (Error ''Missing Vault Model Config.''))"
    if "simulationType = VaultModel \<and> vaultModel this = None"
    using that ne by (simp add: simulateGeneralisedJoin_def)
  have t: "\<not> isConfigurationError (snd ?r)" if "simulationType = Tenderly"
    using that decodeResult_not_configuration [of lib _ outputIndexes]
    by (auto simp: simulateGeneralisedJoin_def isConfigurationError_def split: sum.splits)
  have s: "\<not> isConfigurationError (snd ?r)" if "simulationType = Static"
    using that ne decodeResult_not_configuration [of lib _ outputIndexes]
    by (auto simp: simulateGeneralisedJoin_def isConfigurationError_def split: sum.splits)
  have v: "\<not> isConfigurationError (snd ?r)"
    if "simulationType = VaultModel" "vaultModel this = Some vm" for vm
    using that ne vaultModelLoop_not_configuration
    by (simp add: simulateGeneralisedJoin_def)
  have iff: "isConfigurationError (snd ?r)
     = ((simulationType \<noteq> Tenderly \<and> simulationType \<noteq> VaultModel \<and> simulationType \<noteq> Static)
        \<or> (simulationType = VaultModel \<and> vaultModel this = None))"
  proof (cases "vaultModel this")
    case None
    then show ?thesis
      using unsupported missing t s by (auto simp: isConfigurationError_def)
  next
    case (Some vm)
    then show ?thesis
      using unsupported t s v [of vm] by (auto simp: isConfigurationError_def)
  qed
  have noio: "isConfigurationError (snd ?r) \<longrightarrow> fst ?r = []"
    using iff unsupported missing by auto
  show ?thesis
    using iff noio unsupported missing by (intro conjI impI) simp_all
qed

theorem simulateGeneralisedJoin_configuration_errors_witness:
  "simulateGeneralisedJoin (sampleSimulation None) sampleImports ''0xrelayer''
       [[JoinRequest ''pool1'']] ''0xcall'' [0, 1] ''0xuser'' [''0xtoken''] sampleSigner 7
     = ([], Inl (Error ''Simulation type not supported''))
   \<and> simulateGeneralisedJoin (sampleSimulation None) sampleImports ''0xrelayer''
       [[JoinRequest ''pool1'']] ''0xcall'' [0, 1] ''0xuser'' [''0xtoken''] sampleSigner
       VaultModel
     = ([], Inl (Error ''Missing Vault Model Config.''))
   \<and> \<not> isConfigurationError (snd (simulateGeneralisedJoin (sampleSimulation None)
       sampleImports ''0xrelayer'' [[JoinRequest ''pool1'']] ''0xcall'' [0, 1] ''0xuser''
       [''0xtoken''] sampleSigner Static))"
  using simulateGeneralisedJoin_configuration_errors [where this = "sampleSimulation None"
      and lib = sampleImports and to = "''0xrelayer''"
      and multiRequests = "[[JoinRequest ''pool1'']]" and encodedCall = "''0xcall''"
      and outputIndexes = "[0, 1]" and userAddress = "''0xuser''"
      and tokensIn = "[''0xtoken'']" and signerCall = sampleSigner and simulationType = 7]
    simulateGeneralisedJoin_configuration_errors [where this = "sampleSimulation None"
      and lib = sampleImports and to = "''0xrelayer''"
      and multiRequests = "[[JoinRequest ''pool1'']]" and encodedCall = "''0xcall''"
      and outputIndexes = "[0, 1]" and userAddress = "''0xuser''"
      and tokensIn = "[''0xtoken'']" and signerCall = sampleSigner
      and simulationType = VaultModel]
    simulateGeneralisedJoin_configuration_errors [where this = "sampleSimulation None"
      and lib = sampleImports and to = "''0xrelayer''"
      and multiRequests = "[[JoinRequest ''pool1'']]" and encodedCall = "''0xcall''"
      and outputIndexes = "[0, 1]" and userAddress = "''0xuser''"
      and tokensIn = "[''0xtoken'']" and signerCall = sampleSigner
      and simulationType = Static]
  by (auto simp: sampleSimulation_def Tenderly_def VaultModel_def Static_def)

text \<open>
  C8. Under the VaultModel strategy with a replica configured, when every path
  has a resolvable delta the amounts are the negated deltas of the paths, in
  order, as decimal strings, and the total is their sum; when some path has
  none, the call fails. In particular a path whose deltas have no entry at the
  address of its root pool fails with the runtime's \<open>TypeError\<close> right after the
  replica's call: no zero is put in its place.
\<close>

theorem simulateGeneralisedJoin_vaultModel:
  "(vaultModel this = Some vm \<longrightarrow>
      (case pathDeltas lib (multicall vm) (replicaState vm) 0 multiRequests of
         Some ds \<Rightarrow>
           snd (simulateGeneralisedJoin this lib to multiRequests encodedCall outputIndexes
                  userAddress tokensIn signerCall VaultModel)
             = Inr \<lparr>amountsOut = map (\<lambda>d. toString (- d)) ds,
                    totalAmountOut = toString (sum_list (map uminus ds))\<rparr>
       | None \<Rightarrow>
           isFailure (snd (simulateGeneralisedJoin this lib to multiRequests encodedCall
                  outputIndexes userAddress tokensIn signerCall VaultModel))))
   \<and> ((lastRequestPoolId requests :: 'e Failure + string) = Inr p
        \<and> getPoolAddress lib p = Inr a
        \<and> mc st requests (i = 0) = (Inr deltas, st') \<and> deltas a = None
      \<longrightarrow> vaultModelLoop lib mc st i (requests # rest) io acc
            = (io @ [VaultMulticall requests (i = 0)], (Inl TypeError :: 'e Failure + SimulationResult)))"
proof -
  have ne: "VaultModel \<noteq> Tenderly" by (simp add: Tenderly_def VaultModel_def)
  have 1: "simulateGeneralisedJoin this lib to multiRequests encodedCall outputIndexes
             userAddress tokensIn signerCall VaultModel
           = vaultModelLoop lib (multicall vm) (replicaState vm) 0 multiRequests [] ([], 0)"
    if "vaultModel this = Some vm"
    using that ne by (simp add: simulateGeneralisedJoin_def)
  show ?thesis
    using 1 vaultModelLoop_pathDeltas [of lib "multicall vm" "replicaState vm" 0 multiRequests
        "[]" "([], 0)"]
    by (auto split: option.splits)
qed

theorem simulateGeneralisedJoin_vaultModel_witness:
  "snd (simulateGeneralisedJoin (sampleSimulation (Some sampleReplica)) sampleImports
       ''0xrelayer'' [[JoinRequest ''pool1''], [ExitRequest ''pool2'']] ''0xcall'' [0, 1]
       ''0xuser'' [''0xtoken''] sampleSigner VaultModel)
     = Inr \<lparr>amountsOut = [''10'', ''11''], totalAmountOut = ''21''\<rparr>
   \<and> vaultModelLoop sampleImports (multicall sampleReplica) 1 1 [[ExitRequest ''other'']]
       [VaultMulticall [JoinRequest ''pool1''] True] ([''10''], 10)
     = ([VaultMulticall [JoinRequest ''pool1''] True,
         VaultMulticall [ExitRequest ''other''] False], Inl TypeError)"
proof -
  note t = simulateGeneralisedJoin_vaultModel [where this = "sampleSimulation (Some sampleReplica)"
      and vm = sampleReplica and lib = sampleImports and to = "''0xrelayer''"
      and multiRequests = "[[JoinRequest ''pool1''], [ExitRequest ''pool2'']]"
      and encodedCall = "''0xcall''" and outputIndexes = "[0, 1]"
      and userAddress = "''0xuser''" and tokensIn = "[''0xtoken'']"
      and signerCall = sampleSigner
      and requests = "[ExitRequest ''other'']" and p = "''other''" and a = "''othe''"
      and mc = "multicall sampleReplica" and st = 1 and i = 1
      and deltas = "[''pool'' \<mapsto> - 11]" and st' = 2 and rest = "[]"
      and io = "[VaultMulticall [JoinRequest ''pool1''] True]" and acc = "([''10''], 10)"]
  have pd: "pathDeltas sampleImports (multicall sampleReplica) (replicaState sampleReplica) 0
      [[JoinRequest ''pool1''], [ExitRequest ''pool2'']] = Some [- 10, - 11]"
    by (simp add: sampleReplica_def sampleImports_def rootPoolDelta_def lastRequestPoolId_def)
  have h: "(lastRequestPoolId [ExitRequest ''other''] :: string Failure + string) = Inr ''other''"
    "getPoolAddress sampleImports ''other'' = Inr ''othe''"
    "multicall sampleReplica 1 [ExitRequest ''other''] (1 = (0::nat))
       = (Inr [''pool'' \<mapsto> - 11], 2)"
    "[''pool'' \<mapsto> - 11 :: int] ''othe'' = None"
    by (simp_all add: sampleReplica_def sampleImports_def lastRequestPoolId_def)
  have v: "vaultModel (sampleSimulation (Some sampleReplica)) = Some sampleReplica"
    by (simp add: sampleSimulation_def)
  from t v pd h show ?thesis
    by (simp add: toString_samples)
qed

text \<open>
  C9. The Tenderly and the Static strategy both pass the raw result of their one
  call to \<open>decodeResult\<close>, so on the same raw result and output indexes they
  return the same value. \<open>decodeResult\<close> decodes the raw result to the byte
  strings of the sub-calls and, when each requested index decodes to a
  \<open>uint256\<close>, returns the decimal strings of these values in the order of the
  indexes, and the decimal string of their sum.
\<close>

theorem decodeResult_shared:
  "(simulateMulticall this to encodedCall userAddress tokensIn = Inr raw
      \<longrightarrow> snd (simulateGeneralisedJoin this lib to multiRequests encodedCall outputIndexes
                 userAddress tokensIn signerCall Tenderly)
            = decodeResult lib raw outputIndexes)
   \<and> (signerCall to encodedCall 8000000 = Inr raw
      \<longrightarrow> snd (simulateGeneralisedJoin this lib to multiRequests encodedCall outputIndexes
                 userAddress tokensIn signerCall Static)
            = decodeResult lib raw outputIndexes)
   \<and> (simulateMulticall this to encodedCall userAddress tokensIn = Inr raw
        \<and> signerCall to encodedCall 8000000 = Inr raw
      \<longrightarrow> snd (simulateGeneralisedJoin this lib to multiRequests encodedCall outputIndexes
                 userAddress tokensIn signerCall Tenderly)
            = snd (simulateGeneralisedJoin this lib to multiRequests encodedCall
                 outputIndexes userAddress tokensIn signerCall Static))
   \<and> (decodeBytesArray lib raw = Inr bs
        \<and> map (\<lambda>i. decodeUint256 lib (arrayAt bs i)) outputIndexes = map Inr vs
      \<longrightarrow> decodeResult lib raw outputIndexes
            = Inr \<lparr>amountsOut = map toString vs, totalAmountOut = toString (sum_list vs)\<rparr>)"
proof -
  have ne: "Static \<noteq> Tenderly" "Static \<noteq> VaultModel"
    by (simp_all add: Tenderly_def VaultModel_def Static_def)
  have a: "snd (simulateGeneralisedJoin this lib to multiRequests encodedCall outputIndexes
                 userAddress tokensIn signerCall Tenderly) = decodeResult lib raw outputIndexes"
    if "simulateMulticall this to encodedCall userAddress tokensIn = Inr raw"
    using that by (simp add: simulateGeneralisedJoin_def)
  have b: "snd (simulateGeneralisedJoin this lib to multiRequests encodedCall outputIndexes
                 userAddress tokensIn signerCall Static) = decodeResult lib raw outputIndexes"
    if "signerCall to encodedCall 8000000 = Inr raw"
    using that ne by (simp add: simulateGeneralisedJoin_def)
  have c: "decodeResult lib raw outputIndexes
            = Inr \<lparr>amountsOut = map toString vs, totalAmountOut = toString (sum_list vs)\<rparr>"
    if "decodeBytesArray lib raw = Inr bs"
      "map (\<lambda>i. decodeUint256 lib (arrayAt bs i)) outputIndexes = map Inr vs"
    using that decodeEach_values [OF that(2), of "([], 0)"]
    by (simp add: decodeResult_def)
  show ?thesis
    using a b c by (intro conjI impI; (elim conjE)?) simp_all
qed

theorem decodeResult_shared_witness:
  "snd (simulateGeneralisedJoin (sampleSimulation None) sampleImports ''0xrelayer''
       [] ''0xcall'' [1, 0] ''0xuser'' [''0xtoken''] sampleSigner Tenderly)
     = Inr \<lparr>amountsOut = [''7'', ''5''], totalAmountOut = ''12''\<rparr>
   \<and> snd (simulateGeneralisedJoin (sampleSimulation None) sampleImports ''0xrelayer''
       [] ''0xcall'' [1, 0] ''0xuser'' [''0xtoken''] sampleSigner Static)
     = Inr \<lparr>amountsOut = [''7'', ''5''], totalAmountOut = ''12''\<rparr>"
  using decodeResult_shared [where this = "sampleSimulation None" and lib = sampleImports
      and to = "''0xrelayer''" and multiRequests = "[]" and encodedCall = "''0xcall''"
      and outputIndexes = "[1, 0]" and userAddress = "''0xuser''"
      and tokensIn = "[''0xtoken'']" and signerCall = sampleSigner and raw = "''raw''"
      and bs = "[''b0'', ''b1'']" and vs = "[7, 5]"]
  by (auto simp: sampleSimulation_def sampleImports_def sampleSigner_def arrayAt_def
      toString_samples)

end
